theory Spec2Isabelle
  imports Main
begin

section \<open>Syntax trees of go/ast, as far as the checker reads them\<close>

text \<open>
  An identifier token: the position of its first byte and its text. Go strings are byte
  sequences, so \<open>length\<close> of the text is the \<open>len\<close> of the source.
\<close>

record ident =
  NamePos :: int
  Name :: string

text \<open>
  The node kinds the checker tells apart by type assertion: \<open>*ast.Ident\<close>,
  \<open>*ast.CallExpr\<close> (fields \<open>Fun\<close>, \<open>Args\<close>, \<open>Rparen\<close>) and
  \<open>*ast.SelectorExpr\<close> (fields \<open>X\<close>, \<open>Sel\<close>). Every other node, the nil
  node included, fails each of the three type assertions and is \<open>OtherNode\<close>, which
  keeps only its source range.
\<close>

datatype node =
    Ident ident
  | CallExpr node "node list" int
  | SelectorExpr node ident
  | OtherNode int int

definition ident_Pos :: "ident \<Rightarrow> int" where
  "ident_Pos x = NamePos x"

definition ident_End :: "ident \<Rightarrow> int" where
  "ident_End x = NamePos x + int (length (Name x))"

fun node_Pos :: "node \<Rightarrow> int" where
  "node_Pos (Ident x) = ident_Pos x"
| "node_Pos (CallExpr f args rparen) = node_Pos f"
| "node_Pos (SelectorExpr x sel) = node_Pos x"
| "node_Pos (OtherNode p e) = p"

fun node_End :: "node \<Rightarrow> int" where
  "node_End (Ident x) = ident_End x"
| "node_End (CallExpr f args rparen) = rparen + 1"
| "node_End (SelectorExpr x sel) = ident_End sel"
| "node_End (OtherNode p e) = e"

section \<open>Diagnostics and the analysis pass\<close>

record TextEdit =
  ePos :: int
  eEnd :: int
  NewText :: string

record SuggestedFix =
  fMessage :: string
  TextEdits :: "TextEdit list"

record Diagnostic =
  dPos :: int
  dEnd :: int
  Message :: string
  SuggestedFixes :: "SuggestedFix list"

text \<open>
  The part of \<open>analysis.Pass\<close> the checker uses. \<open>TypesInfo\<close> stands for the type
  table together with \<open>types.Implements(_, error)\<close>: it answers, for an expression,
  whether its static type implements \<open>error\<close>. \<open>Reported\<close> collects what
  \<open>pass.Report\<close> was called with, in call order.
\<close>

record Pass =
  TypesInfo :: "node \<Rightarrow> bool"
  Reported :: "Diagnostic list"

definition Report :: "Pass \<Rightarrow> Diagnostic \<Rightarrow> Pass" where
  "Report pass d = pass\<lparr>Reported := Reported pass @ [d]\<rparr>"

text \<open>Run-time panics of the Go program, as values.\<close>

datatype panic = IndexOutOfRange | NilDereference | Panic string

section \<open>Names, styles and matchers\<close>

text \<open>The wrapper name \<open>Omega\<close> is the two bytes of U+03A9 in UTF-8.\<close>

definition Omega :: string where
  "Omega = [CHR 0xCE, CHR 0xA9]"

definition Expect :: string where
  "Expect = ''Expect''"

definition Should :: string where
  "Should = ''Should''"

definition ShouldNot :: string where
  "ShouldNot = ''ShouldNot''"

definition To :: string where
  "To = ''To''"

definition ToNot :: string where
  "ToNot = ''ToNot''"

definition NotTo :: string where
  "NotTo = ''NotTo''"

type_synonym Style = int

definition ShouldStyle :: Style where
  "ShouldStyle = 0"

definition ExpectStyle :: Style where
  "ExpectStyle = 1"

type_synonym KnownMatcher = string

definition UnknownMatcher :: KnownMatcher where
  "UnknownMatcher = ''''"

definition IsNil :: KnownMatcher where
  "IsNil = ''BeNil''"

definition HaveOccurred :: KnownMatcher where
  "HaveOccurred = ''HaveOccurred''"

definition Succeed :: KnownMatcher where
  "Succeed = ''Succeed''"

definition matchesNil :: "KnownMatcher \<Rightarrow> bool" where
  "matchesNil m = (m \<noteq> HaveOccurred)"

definition getStyle :: "string \<Rightarrow> panic + Style" where
  "getStyle s =
     (if s = Omega \<or> s = Should \<or> s = ShouldNot then Inr ShouldStyle
      else if s = Expect \<or> s = To \<or> s = ToNot \<or> s = NotTo then Inr ExpectStyle
      else Inl (Panic ''foo''))"

definition renderInStyle :: "Style \<Rightarrow> bool \<Rightarrow> panic + string" where
  "renderInStyle style negated =
     (if style = ShouldStyle then (if negated then Inr ShouldNot else Inr Should)
      else if style = ExpectStyle then (if negated then Inr NotTo else Inr To)
      else Inl (Panic ''bar''))"

section \<open>The assertion matcher\<close>

text \<open>
  The struct \<open>assertion\<close>. Its fields are prefixed with \<open>a\<close>, since \<open>CallExpr\<close>,
  \<open>Omega\<close> and \<open>Should\<close> already name a node kind and two constants.
\<close>

record assertion =
  aCallExpr :: node
  aOmega :: ident
  aSubject :: node
  aShould :: ident
  aMatcher :: node
  aNegated :: bool

text \<open>\<open>xs[0]\<close> of a Go slice: a run-time panic on the empty slice.\<close>

definition index0 :: "'a list \<Rightarrow> panic + 'a" where
  "index0 xs = (case xs of [] \<Rightarrow> Inl IndexOutOfRange | x # rest \<Rightarrow> Inr x)"

text \<open>
  The composite literal that \<open>getAssertion\<close> returns; Go evaluates its fields in the
  order written, so \<open>omegaCall.Args[0]\<close> is read before \<open>call.Args[0]\<close>.
\<close>

definition mkAssertion ::
  "node \<Rightarrow> ident \<Rightarrow> node list \<Rightarrow> ident \<Rightarrow> bool \<Rightarrow> node list \<Rightarrow> panic + assertion option" where
  "mkAssertion call omega omegaArgs sel negated callArgs =
     (case index0 omegaArgs of
        Inl e \<Rightarrow> Inl e
      | Inr subject \<Rightarrow>
          (case index0 callArgs of
             Inl e \<Rightarrow> Inl e
           | Inr matcher \<Rightarrow>
               Inr (Some \<lparr>aCallExpr = call, aOmega = omega, aSubject = subject,
                          aShould = sel, aMatcher = matcher, aNegated = negated\<rparr>)))"

text \<open>
  \<open>getAssertion\<close>: \<open>Inr None\<close> is the nil result, \<open>Inl\<close> a panic. Both arity tests
  read \<open>call.Args\<close>, as the source does (the second one stands where the inner call
  has just been bound).
\<close>

definition getAssertion :: "node \<Rightarrow> panic + assertion option" where
  "getAssertion n =
     (case n of
        CallExpr callFun callArgs rparen \<Rightarrow>
          if length callArgs \<noteq> 1 then Inr None
          else
            (case callFun of
               SelectorExpr x sel \<Rightarrow>
                 (case x of
                    CallExpr omegaFun omegaArgs orparen \<Rightarrow>
                      if length callArgs \<noteq> 1 then Inr None
                      else
                        (case omegaFun of
                           Ident omega \<Rightarrow>
                             if Name omega = Omega \<or> Name omega = Expect then
                               if Name sel = Should \<or> Name sel = To then
                                 mkAssertion n omega omegaArgs sel False callArgs
                               else if Name sel = ShouldNot \<or> Name sel = ToNot \<or> Name sel = NotTo then
                                 mkAssertion n omega omegaArgs sel True callArgs
                               else Inr None
                             else Inr None
                         | _ \<Rightarrow> Inr None)
                  | _ \<Rightarrow> Inr None)
             | _ \<Rightarrow> Inr None)
      | _ \<Rightarrow> Inr None)"

section \<open>The two rule engines\<close>

definition getKnownMatcher :: "assertion \<Rightarrow> ident option \<times> KnownMatcher" where
  "getKnownMatcher ass =
     (case aMatcher ass of
        CallExpr callFun callArgs rparen \<Rightarrow>
          if length callArgs \<noteq> 0 then (None, UnknownMatcher)
          else
            (case callFun of
               Ident matcherIdent \<Rightarrow>
                 if Name matcherIdent = IsNil \<or> Name matcherIdent = HaveOccurred
                    \<or> Name matcherIdent = Succeed
                 then (Some matcherIdent, Name matcherIdent)
                 else (None, UnknownMatcher)
             | _ \<Rightarrow> (None, UnknownMatcher))
      | _ \<Rightarrow> (None, UnknownMatcher))"

definition isErrorExpr :: "node \<Rightarrow> (node \<Rightarrow> bool) \<Rightarrow> bool" where
  "isErrorExpr e info = info e"

text \<open>The type assertion \<open>ass.Subject.(*ast.CallExpr)\<close>.\<close>

fun isCallExpr :: "node \<Rightarrow> bool" where
  "isCallExpr (CallExpr f args rparen) = True"
| "isCallExpr n = False"

text \<open>
  \<open>checkNilnessAssertions\<close> returns the flag \<open>emittedShouldFix\<close> and the pass after its
  reports. \<open>matcherIdent.Pos()\<close> on a nil identifier would be a nil dereference.
  \<open>d.SuggestedFixes[0]\<close> is the one fix of the literal built just above, so index 0
  is in range when it is updated.
\<close>

definition checkNilnessAssertions :: "assertion \<Rightarrow> Pass \<Rightarrow> panic + (bool \<times> Pass)" where
  "checkNilnessAssertions ass pass =
     (case getKnownMatcher ass of
        (matcherIdent, matcher) \<Rightarrow>
          if matcher = UnknownMatcher then Inr (False, pass)
          else
            let expectedMatcher =
                  (if isErrorExpr (aSubject ass) (TypesInfo pass)
                   then (if isCallExpr (aSubject ass) then Succeed else HaveOccurred)
                   else IsNil)
            in
            if matcher = expectedMatcher then Inr (False, pass)
            else
              (case matcherIdent of
                 None \<Rightarrow> Inl NilDereference
               | Some mi \<Rightarrow>
                   let d = \<lparr>dPos = node_Pos (aCallExpr ass),
                            dEnd = node_End (aCallExpr ass),
                            Message = ''unidiomatic matcher: consider using '' @ expectedMatcher
                                      @ '' instead of '' @ matcher @ '' in this assertion'',
                            SuggestedFixes =
                              [\<lparr>fMessage = ''change matcher to '' @ expectedMatcher,
                                TextEdits = [\<lparr>ePos = ident_Pos mi, eEnd = ident_End mi,
                                              NewText = expectedMatcher\<rparr>]\<rparr>]\<rparr>;
                       needsInverting = (matchesNil matcher \<noteq> matchesNil expectedMatcher)
                   in
                   if needsInverting then
                     (case getStyle (Name (aOmega ass)) of
                        Inl e \<Rightarrow> Inl e
                      | Inr style \<Rightarrow>
                          (case renderInStyle style (aNegated ass \<noteq> needsInverting) of
                             Inl e \<Rightarrow> Inl e
                           | Inr newShould \<Rightarrow>
                               let fix = hd (SuggestedFixes d);
                                   fix' = fix\<lparr>TextEdits := TextEdits fix @
                                                 [\<lparr>ePos = ident_Pos (aShould ass),
                                                   eEnd = ident_End (aShould ass),
                                                   NewText = newShould\<rparr>]\<rparr>;
                                   fix'' = fix'\<lparr>fMessage := fMessage fix'
                                                   @ '' and invert the assertion''\<rparr>
                               in Inr (needsInverting,
                                       Report pass (d\<lparr>SuggestedFixes :=
                                                       (SuggestedFixes d)[0 := fix'']\<rparr>))))
                   else Inr (needsInverting, Report pass d)))"

definition checkStyle :: "assertion \<Rightarrow> Pass \<Rightarrow> bool \<Rightarrow> panic + Pass" where
  "checkStyle ass pass emitFixes =
     (case getStyle (Name (aOmega ass)) of
        Inl e \<Rightarrow> Inl e
      | Inr omegaStyle \<Rightarrow>
          (case getStyle (Name (aShould ass)) of
             Inl e \<Rightarrow> Inl e
           | Inr shouldStyle \<Rightarrow>
               if omegaStyle = shouldStyle then Inr pass
               else
                 let d = \<lparr>dPos = node_Pos (aCallExpr ass),
                          dEnd = node_End (aCallExpr ass),
                          Message = ''inconsistent assertion style ('' @ Name (aOmega ass)
                                    @ '' + '' @ Name (aShould ass) @ '')'',
                          SuggestedFixes = []\<rparr>
                 in
                 if emitFixes then
                   (case renderInStyle omegaStyle (aNegated ass) of
                      Inl e \<Rightarrow> Inl e
                    | Inr fixedShould \<Rightarrow>
                        Inr (Report pass
                               (d\<lparr>SuggestedFixes :=
                                    [\<lparr>fMessage = ''change '' @ Name (aShould ass) @ '' to ''
                                                  @ fixedShould,
                                      TextEdits = [\<lparr>ePos = ident_Pos (aShould ass),
                                                    eEnd = ident_End (aShould ass),
                                                    NewText = fixedShould\<rparr>]\<rparr>]\<rparr>)))
                 else Inr (Report pass d)))"

text \<open>
  The function literal that \<open>run\<close> hands to \<open>ast.Inspect\<close>: its boolean result tells the
  traversal to descend, and is true on every path that returns.
\<close>

definition visit :: "node \<Rightarrow> Pass \<Rightarrow> panic + (bool \<times> Pass)" where
  "visit n pass =
     (case getAssertion n of
        Inl e \<Rightarrow> Inl e
      | Inr None \<Rightarrow> Inr (True, pass)
      | Inr (Some ass) \<Rightarrow>
          (case checkNilnessAssertions ass pass of
             Inl e \<Rightarrow> Inl e
           | Inr (emittedShouldFix, pass1) \<Rightarrow>
               (case checkStyle ass pass1 (\<not> emittedShouldFix) of
                  Inl e \<Rightarrow> Inl e
                | Inr pass2 \<Rightarrow> Inr (True, pass2))))"

section \<open>The earlier state of the checker in main.go\<close>

text \<open>
  The file \<open>main.go\<close> holds the checker before the nilness rule was added. Its
  \<open>getAssertion\<close>, \<open>getStyle\<close> and \<open>renderInStyle\<close> are the ones above, word for
  word. Its \<open>checkStyle\<close> takes no flag, always attaches the fix, and builds its
  message from another format string; its traversal callback runs \<open>checkStyle\<close> only.
  The two are modelled under the names \<open>main_checkStyle\<close> and \<open>main_visit\<close>.
\<close>

definition main_checkStyle :: "assertion \<Rightarrow> Pass \<Rightarrow> panic + Pass" where
  "main_checkStyle ass pass =
     (case getStyle (Name (aOmega ass)) of
        Inl e \<Rightarrow> Inl e
      | Inr omegaStyle \<Rightarrow>
          (case getStyle (Name (aShould ass)) of
             Inl e \<Rightarrow> Inl e
           | Inr shouldStyle \<Rightarrow>
               if omegaStyle \<noteq> shouldStyle then
                 (case renderInStyle omegaStyle (aNegated ass) of
                    Inl e \<Rightarrow> Inl e
                  | Inr fixedShould \<Rightarrow>
                      Inr (Report pass
                             \<lparr>dPos = node_Pos (aCallExpr ass),
                              dEnd = node_End (aCallExpr ass),
                              Message = ''incosistent assertion style ('' @ Name (aOmega ass)
                                        @ '' + '' @ Name (aShould ass) @ '')'',
                              SuggestedFixes =
                                [\<lparr>fMessage = [],
                                  TextEdits = [\<lparr>ePos = ident_Pos (aShould ass),
                                                eEnd = ident_End (aShould ass),
                                                NewText = fixedShould\<rparr>]\<rparr>]\<rparr>))
               else Inr pass))"

definition main_visit :: "node \<Rightarrow> Pass \<Rightarrow> panic + (bool \<times> Pass)" where
  "main_visit n pass =
     (case getAssertion n of
        Inl e \<Rightarrow> Inl e
      | Inr None \<Rightarrow> Inr (True, pass)
      | Inr (Some ass) \<Rightarrow>
          (case main_checkStyle ass pass of
             Inl e \<Rightarrow> Inl e
           | Inr pass1 \<Rightarrow> Inr (True, pass1)))"

section \<open>Source after a fix\<close>

text \<open>
  Applying an edit is the host's work and happens on the source text. An edit whose range
  is one identifier token replaces that token's text; parsing the edited source gives the
  same tree with that identifier renamed. \<open>withComparator\<close> renames the selector of the
  outer call, \<open>withMatcherName\<close> the callee of a matcher that is a call of a plain
  identifier. Token positions to the right of an edit shift with the length of the new
  text; the functions leave them as they were, and nothing below reads them.
\<close>

fun withComparator :: "string \<Rightarrow> node \<Rightarrow> node" where
  "withComparator t (CallExpr (SelectorExpr x sel) args rparen) =
     CallExpr (SelectorExpr x (sel\<lparr>Name := t\<rparr>)) args rparen"
| "withComparator t n = n"

fun withMatcherName :: "string \<Rightarrow> node \<Rightarrow> node" where
  "withMatcherName t (CallExpr f [CallExpr (Ident mi) margs mrparen] rparen) =
     CallExpr f [CallExpr (Ident (mi\<lparr>Name := t\<rparr>)) margs mrparen] rparen"
| "withMatcherName t n = n"

section \<open>Sample sources\<close>

definition tok :: "int \<Rightarrow> string \<Rightarrow> ident" where
  "tok p s = \<lparr>NamePos = p, Name = s\<rparr>"

text \<open>\<^verbatim>\<open>Expect(err).Should(BeNil())\<close>, first byte at position 1.\<close>

definition src_expect_should :: node where
  "src_expect_should =
     CallExpr (SelectorExpr (CallExpr (Ident (tok 1 Expect)) [Ident (tok 8 ''err'')] 11)
                            (tok 13 Should))
              [CallExpr (Ident (tok 20 IsNil)) [] 26] 27"

text \<open>\<^verbatim>\<open>Expect(a, b).Should(BeNil())\<close>: two arguments in the wrapper call.\<close>

definition src_two_args :: node where
  "src_two_args =
     CallExpr (SelectorExpr (CallExpr (Ident (tok 1 Expect))
                                      [Ident (tok 8 ''a''), Ident (tok 11 ''b'')] 12)
                            (tok 14 Should))
              [CallExpr (Ident (tok 21 IsNil)) [] 27] 28"

text \<open>\<^verbatim>\<open>Expect().Should(BeNil())\<close>: no argument in the wrapper call.\<close>

definition src_no_args :: node where
  "src_no_args =
     CallExpr (SelectorExpr (CallExpr (Ident (tok 1 Expect)) [] 8) (tok 10 Should))
              [CallExpr (Ident (tok 17 IsNil)) [] 23] 24"

text \<open>The Omega wrapper (two bytes long) with the comparator \<open>To\<close>, on a subject \<open>x\<close>.\<close>

definition src_omega_to :: node where
  "src_omega_to =
     CallExpr (SelectorExpr (CallExpr (Ident (tok 1 Omega)) [Ident (tok 4 ''x'')] 5)
                            (tok 7 To))
              [CallExpr (Ident (tok 10 IsNil)) [] 16] 17"

text \<open>A type table in which every expression is an error, and one in which none is.\<close>

definition pass_all_errors :: Pass where
  "pass_all_errors = \<lparr>TypesInfo = (\<lambda>e. True), Reported = []\<rparr>"

definition pass_no_errors :: Pass where
  "pass_no_errors = \<lparr>TypesInfo = (\<lambda>e. False), Reported = []\<rparr>"

text \<open>The assertions the matcher extracts from \<open>src_expect_should\<close> and \<open>src_omega_to\<close>.\<close>

definition ass_expect_should :: assertion where
  "ass_expect_should =
     \<lparr>aCallExpr = src_expect_should, aOmega = tok 1 Expect,
      aSubject = Ident (tok 8 ''err''), aShould = tok 13 Should,
      aMatcher = CallExpr (Ident (tok 20 IsNil)) [] 26, aNegated = False\<rparr>"

definition ass_omega_to :: assertion where
  "ass_omega_to =
     \<lparr>aCallExpr = src_omega_to, aOmega = tok 1 Omega,
      aSubject = Ident (tok 4 ''x''), aShould = tok 7 To,
      aMatcher = CallExpr (Ident (tok 10 IsNil)) [] 16, aNegated = False\<rparr>"

text \<open>\<^verbatim>\<open>Expect(x).To(MyCustomMatcher())\<close> and the assertion extracted from it.\<close>

definition src_custom :: node where
  "src_custom =
     CallExpr (SelectorExpr (CallExpr (Ident (tok 1 Expect)) [Ident (tok 8 ''x'')] 9)
                            (tok 11 To))
              [CallExpr (Ident (tok 14 ''MyCustomMatcher'')) [] 30] 31"

definition ass_custom :: assertion where
  "ass_custom =
     \<lparr>aCallExpr = src_custom, aOmega = tok 1 Expect,
      aSubject = Ident (tok 8 ''x''), aShould = tok 11 To,
      aMatcher = CallExpr (Ident (tok 14 ''MyCustomMatcher'')) [] 30, aNegated = False\<rparr>"

text \<open>
  What the nilness rule reports on \<open>src_expect_should\<close> when \<open>err\<close> is an error, and what
  the style rule reports on \<open>src_omega_to\<close>.
\<close>

definition edit_matcher :: TextEdit where
  "edit_matcher = \<lparr>ePos = 20, eEnd = 25, NewText = HaveOccurred\<rparr>"

definition edit_invert :: TextEdit where
  "edit_invert = \<lparr>ePos = 13, eEnd = 19, NewText = NotTo\<rparr>"

definition fix_nilness :: SuggestedFix where
  "fix_nilness =
     \<lparr>fMessage = ''change matcher to HaveOccurred and invert the assertion'',
      TextEdits = [edit_matcher, edit_invert]\<rparr>"

definition diag_nilness :: Diagnostic where
  "diag_nilness =
     \<lparr>dPos = 1, dEnd = 28,
      Message = ''unidiomatic matcher: consider using HaveOccurred instead of BeNil in this assertion'',
      SuggestedFixes = [fix_nilness]\<rparr>"

definition edit_style :: TextEdit where
  "edit_style = \<lparr>ePos = 7, eEnd = 9, NewText = Should\<rparr>"

definition fix_style :: SuggestedFix where
  "fix_style = \<lparr>fMessage = ''change To to Should'', TextEdits = [edit_style]\<rparr>"

definition diag_style :: Diagnostic where
  "diag_style =
     \<lparr>dPos = 1, dEnd = 18,
      Message = ''inconsistent assertion style ('' @ Omega @ '' + To)'',
      SuggestedFixes = [fix_style]\<rparr>"

section \<open>Properties\<close>

subsection \<open>Shapes, names and styles\<close>

lemmas name_defs = Omega_def Expect_def Should_def ShouldNot_def To_def ToNot_def NotTo_def
lemmas matcher_defs = UnknownMatcher_def IsNil_def HaveOccurred_def Succeed_def
lemmas style_defs = ShouldStyle_def ExpectStyle_def

lemma getAssertion_SomeD:
  assumes "getAssertion n = Inr (Some ass)"
  shows "\<exists>omega subj rest orparen sel m rparen.
           n = CallExpr (SelectorExpr (CallExpr (Ident omega) (subj # rest) orparen) sel) [m] rparen
         \<and> (Name omega = Omega \<or> Name omega = Expect)
         \<and> (Name sel = Should \<or> Name sel = To \<or> Name sel = ShouldNot \<or> Name sel = ToNot \<or> Name sel = NotTo)
         \<and> ass = \<lparr>aCallExpr = n, aOmega = omega, aSubject = subj, aShould = sel, aMatcher = m,
                  aNegated = (Name sel = ShouldNot \<or> Name sel = ToNot \<or> Name sel = NotTo)\<rparr>"
  using assms
  unfolding getAssertion_def mkAssertion_def index0_def
  by (auto split: node.splits if_splits list.splits sum.splits simp: name_defs)

lemma getAssertion_shape:
  assumes "Name omega = Omega \<or> Name omega = Expect"
      and "Name sel = Should \<or> Name sel = To \<or> Name sel = ShouldNot \<or> Name sel = ToNot \<or> Name sel = NotTo"
  shows "getAssertion (CallExpr (SelectorExpr (CallExpr (Ident omega) (subj # rest) orparen) sel) [m] rparen)
         = Inr (Some \<lparr>aCallExpr = CallExpr (SelectorExpr (CallExpr (Ident omega) (subj # rest) orparen) sel) [m] rparen,
                      aOmega = omega, aSubject = subj, aShould = sel, aMatcher = m,
                      aNegated = (Name sel = ShouldNot \<or> Name sel = ToNot \<or> Name sel = NotTo)\<rparr>)"
  using assms
  unfolding getAssertion_def mkAssertion_def index0_def
  by (auto simp: name_defs)

lemma getKnownMatcher_cases:
  "getKnownMatcher ass = (mi, m) \<Longrightarrow>
     (m = UnknownMatcher \<and> mi = None) \<or>
     (\<exists>mid rp. aMatcher ass = CallExpr (Ident mid) [] rp \<and> mi = Some mid \<and> m = Name mid
        \<and> m \<noteq> UnknownMatcher \<and> (m = IsNil \<or> m = HaveOccurred \<or> m = Succeed))"
  unfolding getKnownMatcher_def
  by (auto split: node.splits if_splits simp: matcher_defs)

lemma getStyle_known:
  "s = Omega \<or> s = Expect \<or> s = Should \<or> s = To \<or> s = ShouldNot \<or> s = ToNot \<or> s = NotTo \<Longrightarrow>
   getStyle s = Inr ShouldStyle \<or> getStyle s = Inr ExpectStyle"
  by (auto simp: getStyle_def)

lemma getStyle_range:
  "getStyle s = Inr st \<Longrightarrow> st = ShouldStyle \<or> st = ExpectStyle"
  by (auto simp: getStyle_def split: if_splits)

lemma renderInStyle_known:
  "st = ShouldStyle \<or> st = ExpectStyle \<Longrightarrow>
   renderInStyle st neg = Inr (if st = ShouldStyle then (if neg then ShouldNot else Should)
                               else (if neg then NotTo else To))"
  by (auto simp: renderInStyle_def style_defs)

lemma getStyle_render:
  "st = ShouldStyle \<or> st = ExpectStyle \<Longrightarrow> renderInStyle st neg = Inr t \<Longrightarrow>
   getStyle t = Inr st \<and> ((t = ShouldNot \<or> t = ToNot \<or> t = NotTo) = neg)
   \<and> (t = Should \<or> t = To \<or> t = ShouldNot \<or> t = ToNot \<or> t = NotTo)"
  by (auto simp: renderInStyle_def getStyle_def style_defs name_defs split: if_splits)

lemma recognized_styles:
  assumes "getAssertion n = Inr (Some ass)"
  shows "\<exists>so ss. getStyle (Name (aOmega ass)) = Inr so \<and> getStyle (Name (aShould ass)) = Inr ss
          \<and> (so = ShouldStyle \<or> so = ExpectStyle) \<and> (ss = ShouldStyle \<or> ss = ExpectStyle)"
proof -
  from getAssertion_SomeD [OF assms] obtain omega subj sel m where
    o: "Name omega = Omega \<or> Name omega = Expect" and
    s: "Name sel = Should \<or> Name sel = To \<or> Name sel = ShouldNot \<or> Name sel = ToNot \<or> Name sel = NotTo" and
    ass: "ass = \<lparr>aCallExpr = n, aOmega = omega, aSubject = subj, aShould = sel, aMatcher = m,
                  aNegated = (Name sel = ShouldNot \<or> Name sel = ToNot \<or> Name sel = NotTo)\<rparr>"
    by blast
  from ass have a: "aOmega ass = omega" "aShould ass = sel" by simp_all
  from o have "getStyle (Name omega) = Inr ShouldStyle \<or> getStyle (Name omega) = Inr ExpectStyle"
    by (intro getStyle_known) auto
  moreover from s have "getStyle (Name sel) = Inr ShouldStyle \<or> getStyle (Name sel) = Inr ExpectStyle"
    by (intro getStyle_known) auto
  ultimately show ?thesis using a by auto
qed

lemma checkStyle_eval:
  assumes "getStyle (Name (aOmega ass)) = Inr so" and "getStyle (Name (aShould ass)) = Inr ss"
      and "renderInStyle so (aNegated ass) = Inr t"
  shows "checkStyle ass pass flag =
           Inr (if so = ss then pass
                else Report pass
                  \<lparr>dPos = node_Pos (aCallExpr ass), dEnd = node_End (aCallExpr ass),
                   Message = ''inconsistent assertion style ('' @ Name (aOmega ass) @ '' + ''
                             @ Name (aShould ass) @ '')'',
                   SuggestedFixes =
                     (if flag
                      then [\<lparr>fMessage = ''change '' @ Name (aShould ass) @ '' to '' @ t,
                              TextEdits = [\<lparr>ePos = ident_Pos (aShould ass),
                                            eEnd = ident_End (aShould ass), NewText = t\<rparr>]\<rparr>]
                      else [])\<rparr>)"
  using assms by (simp add: checkStyle_def Let_def)

lemma checkNilness_unknown:
  "snd (getKnownMatcher ass) = UnknownMatcher \<Longrightarrow> checkNilnessAssertions ass pass = Inr (False, pass)"
  by (cases "getKnownMatcher ass") (simp add: checkNilnessAssertions_def)

lemma checkNilness_eval:
  assumes "getKnownMatcher ass = (Some mid, m)" and "m \<noteq> UnknownMatcher"
      and "getStyle (Name (aOmega ass)) = Inr so"
      and "renderInStyle so (\<not> aNegated ass) = Inr t"
      and "expected = (if isErrorExpr (aSubject ass) (TypesInfo pass)
                       then (if isCallExpr (aSubject ass) then Succeed else HaveOccurred)
                       else IsNil)"
  shows "checkNilnessAssertions ass pass =
           (if m = expected then Inr (False, pass)
            else Inr (matchesNil m \<noteq> matchesNil expected,
                      Report pass
                        \<lparr>dPos = node_Pos (aCallExpr ass), dEnd = node_End (aCallExpr ass),
                         Message = ''unidiomatic matcher: consider using '' @ expected
                                   @ '' instead of '' @ m @ '' in this assertion'',
                         SuggestedFixes =
                           [\<lparr>fMessage = ''change matcher to '' @ expected
                                         @ (if matchesNil m \<noteq> matchesNil expected
                                            then '' and invert the assertion'' else []),
                             TextEdits =
                               \<lparr>ePos = ident_Pos mid, eEnd = ident_End mid, NewText = expected\<rparr>
                               # (if matchesNil m \<noteq> matchesNil expected
                                  then [\<lparr>ePos = ident_Pos (aShould ass),
                                         eEnd = ident_End (aShould ass), NewText = t\<rparr>]
                                  else [])\<rparr>]\<rparr>))"
  using assms by (simp add: checkNilnessAssertions_def Let_def)

lemma recognized_callExpr:
  "getAssertion n = Inr (Some ass) \<Longrightarrow> aCallExpr ass = n"
  by (drule getAssertion_SomeD) auto

lemma recognized_withComparator:
  assumes "getAssertion n = Inr (Some ass)"
      and "t = Should \<or> t = To \<or> t = ShouldNot \<or> t = ToNot \<or> t = NotTo"
  shows "getAssertion (withComparator t n) =
           Inr (Some (ass\<lparr>aCallExpr := withComparator t n,
                          aShould := (aShould ass)\<lparr>Name := t\<rparr>,
                          aNegated := (t = ShouldNot \<or> t = ToNot \<or> t = NotTo)\<rparr>))"
proof -
  from getAssertion_SomeD [OF assms(1)] obtain omega subj rest orparen sel m rparen where
    n: "n = CallExpr (SelectorExpr (CallExpr (Ident omega) (subj # rest) orparen) sel) [m] rparen" and
    o: "Name omega = Omega \<or> Name omega = Expect" and
    ass: "ass = \<lparr>aCallExpr = n, aOmega = omega, aSubject = subj, aShould = sel, aMatcher = m,
                  aNegated = (Name sel = ShouldNot \<or> Name sel = ToNot \<or> Name sel = NotTo)\<rparr>"
    by blast
  have s: "Name (sel\<lparr>Name := t\<rparr>) = Should \<or> Name (sel\<lparr>Name := t\<rparr>) = To
         \<or> Name (sel\<lparr>Name := t\<rparr>) = ShouldNot \<or> Name (sel\<lparr>Name := t\<rparr>) = ToNot
         \<or> Name (sel\<lparr>Name := t\<rparr>) = NotTo"
    using assms(2) by simp
  show ?thesis
    unfolding n withComparator.simps getAssertion_shape [OF o s]
    by (simp add: ass n)
qed

lemma recognized_withMatcherName:
  assumes "getAssertion n = Inr (Some ass)"
      and "aMatcher ass = CallExpr (Ident mid) margs mrparen"
  shows "getAssertion (withMatcherName e n) =
           Inr (Some (ass\<lparr>aCallExpr := withMatcherName e n,
                          aMatcher := CallExpr (Ident (mid\<lparr>Name := e\<rparr>)) margs mrparen\<rparr>))"
proof -
  from getAssertion_SomeD [OF assms(1)] obtain omega subj rest orparen sel m rparen where
    n: "n = CallExpr (SelectorExpr (CallExpr (Ident omega) (subj # rest) orparen) sel) [m] rparen" and
    o: "Name omega = Omega \<or> Name omega = Expect" and
    s: "Name sel = Should \<or> Name sel = To \<or> Name sel = ShouldNot \<or> Name sel = ToNot \<or> Name sel = NotTo" and
    ass: "ass = \<lparr>aCallExpr = n, aOmega = omega, aSubject = subj, aShould = sel, aMatcher = m,
                  aNegated = (Name sel = ShouldNot \<or> Name sel = ToNot \<or> Name sel = NotTo)\<rparr>"
    by blast
  from ass assms(2) have m: "m = CallExpr (Ident mid) margs mrparen" by simp
  show ?thesis
    unfolding n m withMatcherName.simps getAssertion_shape [OF o s]
    by (simp add: ass n m)
qed

lemma checkNilness_cases:
  assumes "getAssertion n = Inr (Some ass)"
      and "getKnownMatcher ass = (mi, actual)"
      and "expected = (if isErrorExpr (aSubject ass) (TypesInfo pass)
                       then (if isCallExpr (aSubject ass) then Succeed else HaveOccurred)
                       else IsNil)"
  shows "(checkNilnessAssertions ass pass = Inr (False, pass)
            \<and> (actual = UnknownMatcher \<or> actual = expected))
       \<or> (\<exists>mid mrparen so t.
             mi = Some mid \<and> aMatcher ass = CallExpr (Ident mid) [] mrparen
           \<and> actual = Name mid \<and> actual \<noteq> UnknownMatcher \<and> actual \<noteq> expected
           \<and> getStyle (Name (aOmega ass)) = Inr so
           \<and> renderInStyle so (\<not> aNegated ass) = Inr t
           \<and> checkNilnessAssertions ass pass =
               Inr (matchesNil actual \<noteq> matchesNil expected,
                    Report pass
                      \<lparr>dPos = node_Pos n, dEnd = node_End n,
                       Message = ''unidiomatic matcher: consider using '' @ expected
                                 @ '' instead of '' @ actual @ '' in this assertion'',
                       SuggestedFixes =
                         [\<lparr>fMessage = ''change matcher to '' @ expected
                                       @ (if matchesNil actual \<noteq> matchesNil expected
                                          then '' and invert the assertion'' else []),
                           TextEdits =
                             \<lparr>ePos = ident_Pos mid, eEnd = ident_End mid, NewText = expected\<rparr>
                             # (if matchesNil actual \<noteq> matchesNil expected
                                then [\<lparr>ePos = ident_Pos (aShould ass),
                                       eEnd = ident_End (aShould ass), NewText = t\<rparr>]
                                else [])\<rparr>]\<rparr>))"
proof (cases "actual = UnknownMatcher")
  case True
  then have "snd (getKnownMatcher ass) = UnknownMatcher" using assms(2) by simp
  from checkNilness_unknown [OF this] True show ?thesis by simp
next
  case False
  from recognized_styles [OF assms(1)] obtain so where
    so: "getStyle (Name (aOmega ass)) = Inr so" "so = ShouldStyle \<or> so = ExpectStyle"
    by blast
  from renderInStyle_known [OF so(2)] obtain t where
    t: "renderInStyle so (\<not> aNegated ass) = Inr t" by blast
  from getKnownMatcher_cases [OF assms(2)] False obtain mid mrparen where
    m: "aMatcher ass = CallExpr (Ident mid) [] mrparen" "mi = Some mid" "actual = Name mid"
    by blast
  have km: "getKnownMatcher ass = (Some mid, actual)" using assms(2) m(2) by simp
  note ev = checkNilness_eval [OF km False so(1) t assms(3)]
  show ?thesis
  proof (cases "actual = expected")
    case True
    with ev show ?thesis by simp
  next
    case ne: False
    have "checkNilnessAssertions ass pass =
               Inr (matchesNil actual \<noteq> matchesNil expected,
                    Report pass
                      \<lparr>dPos = node_Pos n, dEnd = node_End n,
                       Message = ''unidiomatic matcher: consider using '' @ expected
                                 @ '' instead of '' @ actual @ '' in this assertion'',
                       SuggestedFixes =
                         [\<lparr>fMessage = ''change matcher to '' @ expected
                                       @ (if matchesNil actual \<noteq> matchesNil expected
                                          then '' and invert the assertion'' else []),
                           TextEdits =
                             \<lparr>ePos = ident_Pos mid, eEnd = ident_End mid, NewText = expected\<rparr>
                             # (if matchesNil actual \<noteq> matchesNil expected
                                then [\<lparr>ePos = ident_Pos (aShould ass),
                                       eEnd = ident_End (aShould ass), NewText = t\<rparr>]
                                else [])\<rparr>]\<rparr>)"
      using ev ne recognized_callExpr [OF assms(1)] by simp
    with m so(1) t False ne show ?thesis by blast
  qed
qed

subsection \<open>The engines return on recognised assertions\<close>

lemma getAssertion_Inl:
  "getAssertion n = Inl e \<Longrightarrow> e = IndexOutOfRange"
  unfolding getAssertion_def mkAssertion_def index0_def
  by (auto split: node.splits if_splits list.splits sum.splits)

lemma checkNilness_returns:
  assumes "getAssertion n = Inr (Some ass)"
  shows "\<exists>b pass'. checkNilnessAssertions ass pass = Inr (b, pass')"
  using checkNilness_cases [OF assms, of "fst (getKnownMatcher ass)" "snd (getKnownMatcher ass)" _ pass]
  by auto

lemma checkStyle_returns:
  assumes "getAssertion n = Inr (Some ass)"
  shows "\<exists>pass'. checkStyle ass pass flag = Inr pass'"
proof -
  from recognized_styles [OF assms] obtain so ss where
    s: "getStyle (Name (aOmega ass)) = Inr so" "getStyle (Name (aShould ass)) = Inr ss"
       "so = ShouldStyle \<or> so = ExpectStyle"
    by blast
  from renderInStyle_known [OF s(3)] obtain t where
    t: "renderInStyle so (aNegated ass) = Inr t" by blast
  show ?thesis unfolding checkStyle_eval [OF s(1) s(2) t] by blast
qed

lemma checkNilness_outcomes:
  assumes "getAssertion n = Inr (Some ass)"
  obtains
    (silent) "checkNilnessAssertions ass pass = Inr (False, pass)"
  | (plain) d e1 where
      "checkNilnessAssertions ass pass = Inr (False, Report pass d)"
      "\<exists>m. SuggestedFixes d = [\<lparr>fMessage = m, TextEdits = [e1]\<rparr>]"
  | (inverted) d e1 so t where
      "checkNilnessAssertions ass pass = Inr (True, Report pass d)"
      "\<exists>m. SuggestedFixes d =
         [\<lparr>fMessage = m,
           TextEdits = [e1, \<lparr>ePos = ident_Pos (aShould ass), eEnd = ident_End (aShould ass),
                             NewText = t\<rparr>]\<rparr>]"
      "NewText e1 = (if isErrorExpr (aSubject ass) (TypesInfo pass)
                     then (if isCallExpr (aSubject ass) then Succeed else HaveOccurred)
                     else IsNil)"
      "\<exists>mid mrparen. aMatcher ass = CallExpr (Ident mid) [] mrparen"
      "getStyle (Name (aOmega ass)) = Inr so"
      "renderInStyle so (\<not> aNegated ass) = Inr t"
proof -
  obtain mi actual where k: "getKnownMatcher ass = (mi, actual)"
    by (cases "getKnownMatcher ass")
  define expected where
    "expected = (if isErrorExpr (aSubject ass) (TypesInfo pass)
                 then (if isCallExpr (aSubject ass) then Succeed else HaveOccurred)
                 else IsNil)"
  from checkNilness_cases [OF assms k expected_def] consider
    (quiet) "checkNilnessAssertions ass pass = Inr (False, pass)"
  | (report) mid mrparen so t where
      "aMatcher ass = CallExpr (Ident mid) [] mrparen"
      "getStyle (Name (aOmega ass)) = Inr so"
      "renderInStyle so (\<not> aNegated ass) = Inr t"
      "checkNilnessAssertions ass pass =
               Inr (matchesNil actual \<noteq> matchesNil expected,
                    Report pass
                      \<lparr>dPos = node_Pos n, dEnd = node_End n,
                       Message = ''unidiomatic matcher: consider using '' @ expected
                                 @ '' instead of '' @ actual @ '' in this assertion'',
                       SuggestedFixes =
                         [\<lparr>fMessage = ''change matcher to '' @ expected
                                       @ (if matchesNil actual \<noteq> matchesNil expected
                                          then '' and invert the assertion'' else []),
                           TextEdits =
                             \<lparr>ePos = ident_Pos mid, eEnd = ident_End mid, NewText = expected\<rparr>
                             # (if matchesNil actual \<noteq> matchesNil expected
                                then [\<lparr>ePos = ident_Pos (aShould ass),
                                       eEnd = ident_End (aShould ass), NewText = t\<rparr>]
                                else [])\<rparr>]\<rparr>)"
    by blast
  then show thesis
  proof cases
    case quiet
    then show thesis by (rule silent)
  next
    case (report mid mrparen so t)
    note m = report(1) and so = report(2) and t = report(3) and r = report(4)
    let ?e1 = "\<lparr>ePos = ident_Pos mid, eEnd = ident_End mid, NewText = expected\<rparr>"
    let ?e2 = "\<lparr>ePos = ident_Pos (aShould ass), eEnd = ident_End (aShould ass), NewText = t\<rparr>"
    let ?msg = "''unidiomatic matcher: consider using '' @ expected
                  @ '' instead of '' @ actual @ '' in this assertion''"
    show thesis
    proof (cases "matchesNil actual \<noteq> matchesNil expected")
      case True
      let ?d = "\<lparr>dPos = node_Pos n, dEnd = node_End n, Message = ?msg,
                 SuggestedFixes =
                   [\<lparr>fMessage = ''change matcher to '' @ expected @ '' and invert the assertion'',
                     TextEdits = [?e1, ?e2]\<rparr>]\<rparr>"
      have f1: "checkNilnessAssertions ass pass = Inr (True, Report pass ?d)"
        using r True by simp
      have f2: "\<exists>m. SuggestedFixes ?d = [\<lparr>fMessage = m, TextEdits = [?e1, ?e2]\<rparr>]"
        by simp
      have f3: "NewText ?e1 = (if isErrorExpr (aSubject ass) (TypesInfo pass)
                     then (if isCallExpr (aSubject ass) then Succeed else HaveOccurred)
                     else IsNil)"
        by (simp add: expected_def)
      have f4: "\<exists>mid mrparen. aMatcher ass = CallExpr (Ident mid) [] mrparen"
        using m by blast
      from f1 f2 f3 f4 so t show thesis by (rule inverted)
    next
      case False
      let ?d = "\<lparr>dPos = node_Pos n, dEnd = node_End n, Message = ?msg,
                 SuggestedFixes =
                   [\<lparr>fMessage = ''change matcher to '' @ expected, TextEdits = [?e1]\<rparr>]\<rparr>"
      have f1: "checkNilnessAssertions ass pass = Inr (False, Report pass ?d)"
        using r False by simp
      have f2: "\<exists>m. SuggestedFixes ?d = [\<lparr>fMessage = m, TextEdits = [?e1]\<rparr>]"
        by simp
      from f1 f2 show thesis by (rule plain)
    qed
  qed
qed

lemma checkStyle_same_style:
  assumes "getStyle (Name (aOmega a)) = Inr so" and "getStyle (Name (aShould a)) = Inr so"
  shows "checkStyle a p fl = Inr p"
  using assms by (simp add: checkStyle_def)

lemma main_checkStyle_returns:
  assumes "getAssertion n = Inr (Some ass)"
  shows "\<exists>pass'. main_checkStyle ass pass = Inr pass'"
proof -
  from recognized_styles [OF assms] obtain so ss where
    s: "getStyle (Name (aOmega ass)) = Inr so" "getStyle (Name (aShould ass)) = Inr ss"
       "so = ShouldStyle \<or> so = ExpectStyle"
    by blast
  from renderInStyle_known [OF s(3)] obtain t where
    t: "renderInStyle so (aNegated ass) = Inr t" by blast
  show ?thesis by (simp add: main_checkStyle_def s(1,2) t)
qed

lemma visit_returns:
  assumes "getAssertion n = Inr (Some ass)"
  shows "\<exists>pass'. visit n pass = Inr (True, pass')"
proof -
  from checkNilness_returns [OF assms] obtain b pass1 where
    n: "checkNilnessAssertions ass pass = Inr (b, pass1)" by blast
  from checkStyle_returns [OF assms] obtain pass2 where
    s: "checkStyle ass pass1 (\<not> b) = Inr pass2" by blast
  show ?thesis by (simp add: visit_def assms n s)
qed

lemma visit_Inl:
  assumes "visit n pass = Inl e"
  shows "e = IndexOutOfRange"
proof (cases "getAssertion n")
  case (Inl x)
  with assms have "x = e" by (simp add: visit_def)
  with Inl getAssertion_Inl show ?thesis by blast
next
  case (Inr r)
  show ?thesis
  proof (cases r)
    case None
    with Inr assms show ?thesis by (simp add: visit_def)
  next
    case (Some ass)
    with Inr have "getAssertion n = Inr (Some ass)" by simp
    from visit_returns [OF this, of pass] assms show ?thesis by auto
  qed
qed

lemma main_visit_Inl:
  assumes "main_visit n pass = Inl e"
  shows "e = IndexOutOfRange"
proof (cases "getAssertion n")
  case (Inl x)
  with assms have "x = e" by (simp add: main_visit_def)
  with Inl getAssertion_Inl show ?thesis by blast
next
  case (Inr r)
  show ?thesis
  proof (cases r)
    case None
    with Inr assms show ?thesis by (simp add: main_visit_def)
  next
    case (Some ass)
    with Inr have a: "getAssertion n = Inr (Some ass)" by simp
    from main_checkStyle_returns [OF a, of pass] assms a show ?thesis
      by (auto simp: main_visit_def)
  qed
qed

lemma checkStyle_message:
  assumes "getAssertion n = Inr (Some ass)"
      and "checkStyle ass pass flag = Inr pass'"
      and "Reported pass' = Reported pass @ [d]"
  shows "Message d = ''inconsistent assertion style ('' @ Name (aOmega ass) @ '' + ''
                     @ Name (aShould ass) @ '')''"
proof -
  from recognized_styles [OF assms(1)] obtain so ss where
    so: "getStyle (Name (aOmega ass)) = Inr so" and ss: "getStyle (Name (aShould ass)) = Inr ss"
    and k: "so = ShouldStyle \<or> so = ExpectStyle"
    by blast
  from renderInStyle_known [OF k] obtain t where
    t: "renderInStyle so (aNegated ass) = Inr t" by blast
  from assms(2,3) show ?thesis
    unfolding checkStyle_eval [OF so ss t]
    by (auto simp: Report_def split: if_splits)
qed

subsection \<open>The sample sources, evaluated\<close>

lemma getAssertion_expect_should:
  "getAssertion src_expect_should = Inr (Some ass_expect_should)"
  by (simp add: getAssertion_def mkAssertion_def index0_def src_expect_should_def
        ass_expect_should_def tok_def name_defs)

lemma getAssertion_omega_to:
  "getAssertion src_omega_to = Inr (Some ass_omega_to)"
  by (simp add: getAssertion_def mkAssertion_def index0_def src_omega_to_def
        ass_omega_to_def tok_def name_defs)

lemma getKnownMatcher_expect_should:
  "getKnownMatcher ass_expect_should = (Some (tok 20 IsNil), IsNil)"
  by (simp add: getKnownMatcher_def ass_expect_should_def tok_def matcher_defs)

lemma getKnownMatcher_omega_to:
  "getKnownMatcher ass_omega_to = (Some (tok 10 IsNil), IsNil)"
  by (simp add: getKnownMatcher_def ass_omega_to_def tok_def matcher_defs)

lemma getAssertion_custom:
  "getAssertion src_custom = Inr (Some ass_custom)"
  by (simp add: getAssertion_def mkAssertion_def index0_def src_custom_def
        ass_custom_def tok_def name_defs)

lemma checkNilness_expect_should:
  "checkNilnessAssertions ass_expect_should pass_all_errors =
     Inr (True, pass_all_errors\<lparr>Reported := [diag_nilness]\<rparr>)"
  by (simp add: checkNilnessAssertions_def getKnownMatcher_expect_should)
     (simp add: ass_expect_should_def src_expect_should_def pass_all_errors_def tok_def
        isErrorExpr_def matchesNil_def getStyle_def renderInStyle_def Report_def
        ident_Pos_def ident_End_def name_defs matcher_defs style_defs
        diag_nilness_def fix_nilness_def edit_matcher_def edit_invert_def)

lemma checkStyle_omega_to:
  "checkStyle ass_omega_to pass_no_errors True =
     Inr (pass_no_errors\<lparr>Reported := [diag_style]\<rparr>)"
  by (simp add: checkStyle_def ass_omega_to_def src_omega_to_def pass_no_errors_def tok_def
        getStyle_def renderInStyle_def Report_def ident_Pos_def ident_End_def
        name_defs style_defs diag_style_def fix_style_def edit_style_def)

section \<open>The claims\<close>

subsection \<open>The assertion matcher\<close>

text \<open>
  Claim C1 says that a node whose wrapper call has two or more arguments is not
  recognised. The matcher tests the arity of the outer call twice and never that of the
  wrapper call, so on \<^verbatim>\<open>Expect(a, b).Should(BeNil())\<close> it returns an assertion, with the
  first of the two arguments as its subject.
\<close>

theorem getAssertion_two_wrapper_args:
  "getAssertion src_two_args =
     Inr (Some \<lparr>aCallExpr = src_two_args, aOmega = tok 1 Expect,
                aSubject = Ident (tok 8 ''a''), aShould = tok 14 Should,
                aMatcher = CallExpr (Ident (tok 21 IsNil)) [] 27, aNegated = False\<rparr>)"
  by (simp add: getAssertion_def mkAssertion_def index0_def src_two_args_def tok_def name_defs)

text \<open>
  Claim C2 says that the matcher never fails abruptly, and names the wrapper call without
  arguments. On \<^verbatim>\<open>Expect().Should(BeNil())\<close> both names are known, the missing arity test
  lets the node through, and reading the first wrapper argument panics; the panic ends
  the traversal callback of either state of the checker.
\<close>

theorem getAssertion_no_wrapper_args:
  "getAssertion src_no_args = Inl IndexOutOfRange
   \<and> visit src_no_args pass = Inl IndexOutOfRange
   \<and> main_visit src_no_args pass = Inl IndexOutOfRange"
  by (simp add: visit_def main_visit_def getAssertion_def mkAssertion_def index0_def
        src_no_args_def tok_def name_defs)

subsection \<open>The nilness rule\<close>

text \<open>
  Claim C3. For a recognised assertion whose matcher is one of the three known ones, the
  expected matcher is \<open>Succeed\<close> when the subject is an error and a call,
  \<open>HaveOccurred\<close> when it is an error and not a call, \<open>BeNil\<close> when it is no error.
  When the actual matcher is the expected one, the pass is unchanged. Otherwise exactly
  one diagnostic is appended; it spans the assertion, its message is the documented
  sentence with the two matcher names, and it carries one fix whose first edit has the
  range of the matcher's callee identifier and the expected matcher's name as new text.
\<close>

theorem nilness_expected_matcher:
  assumes "getAssertion n = Inr (Some ass)"
      and "getKnownMatcher ass = (mi, actual)"
      and "actual \<noteq> UnknownMatcher"
      and "expected = (if isErrorExpr (aSubject ass) (TypesInfo pass)
                       then (if isCallExpr (aSubject ass) then Succeed else HaveOccurred)
                       else IsNil)"
  shows "\<exists>b pass'. checkNilnessAssertions ass pass = Inr (b, pass') \<and>
           (if actual = expected then pass' = pass
            else (\<exists>mid mrparen d fix others.
                    aMatcher ass = CallExpr (Ident mid) [] mrparen
                  \<and> Reported pass' = Reported pass @ [d]
                  \<and> dPos d = node_Pos n \<and> dEnd d = node_End n
                  \<and> Message d = ''unidiomatic matcher: consider using '' @ expected
                                 @ '' instead of '' @ actual @ '' in this assertion''
                  \<and> SuggestedFixes d = [fix]
                  \<and> TextEdits fix = \<lparr>ePos = ident_Pos mid, eEnd = ident_End mid,
                                       NewText = expected\<rparr> # others))"
proof -
  from recognized_styles [OF assms(1)] obtain so where
    so: "getStyle (Name (aOmega ass)) = Inr so" "so = ShouldStyle \<or> so = ExpectStyle"
    by blast
  from renderInStyle_known [OF so(2)] obtain t where
    t: "renderInStyle so (\<not> aNegated ass) = Inr t" by blast
  from getKnownMatcher_cases [OF assms(2)] assms(3) obtain mid mrparen where
    m: "aMatcher ass = CallExpr (Ident mid) [] mrparen" "mi = Some mid"
    by blast
  from getAssertion_SomeD [OF assms(1)] have n: "aCallExpr ass = n" by auto
  have km: "getKnownMatcher ass = (Some mid, actual)" using assms(2) m(2) by simp
  show ?thesis
    unfolding checkNilness_eval [OF km assms(3) so(1) t assms(4)]
    using m(1) n by (auto simp: Report_def)
qed

text \<open>The theorem at \<^verbatim>\<open>Expect(err).Should(BeNil())\<close> with \<open>err\<close> an error.\<close>

theorem nilness_expected_matcher_witness:
  "getAssertion src_expect_should = Inr (Some ass_expect_should)
   \<and> getKnownMatcher ass_expect_should = (Some (tok 20 IsNil), IsNil)
   \<and> IsNil \<noteq> UnknownMatcher
   \<and> HaveOccurred = (if isErrorExpr (aSubject ass_expect_should) (TypesInfo pass_all_errors)
                      then (if isCallExpr (aSubject ass_expect_should) then Succeed else HaveOccurred)
                      else IsNil)
   \<and> IsNil \<noteq> HaveOccurred
   \<and> (\<exists>b pass'. checkNilnessAssertions ass_expect_should pass_all_errors = Inr (b, pass') \<and>
         (\<exists>mid mrparen d fix others.
             aMatcher ass_expect_should = CallExpr (Ident mid) [] mrparen
           \<and> Reported pass' = Reported pass_all_errors @ [d]
           \<and> dPos d = node_Pos src_expect_should \<and> dEnd d = node_End src_expect_should
           \<and> Message d = ''unidiomatic matcher: consider using '' @ HaveOccurred
                          @ '' instead of '' @ IsNil @ '' in this assertion''
           \<and> SuggestedFixes d = [fix]
           \<and> TextEdits fix = \<lparr>ePos = ident_Pos mid, eEnd = ident_End mid,
                                NewText = HaveOccurred\<rparr> # others))"
proof -
  have h3: "IsNil \<noteq> UnknownMatcher" by (simp add: matcher_defs)
  have h4: "HaveOccurred = (if isErrorExpr (aSubject ass_expect_should) (TypesInfo pass_all_errors)
                      then (if isCallExpr (aSubject ass_expect_should) then Succeed else HaveOccurred)
                      else IsNil)"
    by (simp add: isErrorExpr_def pass_all_errors_def ass_expect_should_def)
  have ne: "IsNil \<noteq> HaveOccurred" by (simp add: matcher_defs)
  from nilness_expected_matcher [OF getAssertion_expect_should getKnownMatcher_expect_should h3 h4]
  show ?thesis
    using getAssertion_expect_should getKnownMatcher_expect_should h3 h4 ne by simp
qed

text \<open>
  Claim C9. The classification is a known matcher exactly for a matcher expression that
  is a call without arguments of a plain identifier named \<open>BeNil\<close>, \<open>HaveOccurred\<close>
  or \<open>Succeed\<close>, and it then returns that identifier and its name. For every other
  matcher expression it is \<open>UnknownMatcher\<close> with no identifier, and the nilness rule
  returns false and the pass it was given, whatever the type table says.
\<close>

theorem known_matcher_classification:
  "(snd (getKnownMatcher ass) \<noteq> UnknownMatcher) =
     (\<exists>mid mrparen. aMatcher ass = CallExpr (Ident mid) [] mrparen
        \<and> (Name mid = ''BeNil'' \<or> Name mid = ''HaveOccurred'' \<or> Name mid = ''Succeed''))
   \<and> (\<forall>mid mrparen. aMatcher ass = CallExpr (Ident mid) [] mrparen
        \<and> (Name mid = ''BeNil'' \<or> Name mid = ''HaveOccurred'' \<or> Name mid = ''Succeed'')
        \<longrightarrow> getKnownMatcher ass = (Some mid, Name mid))
   \<and> (snd (getKnownMatcher ass) = UnknownMatcher
        \<longrightarrow> fst (getKnownMatcher ass) = None
          \<and> (\<forall>pass. checkNilnessAssertions ass pass = Inr (False, pass)))"
proof (intro conjI allI impI)
  show "(snd (getKnownMatcher ass) \<noteq> UnknownMatcher) =
     (\<exists>mid mrparen. aMatcher ass = CallExpr (Ident mid) [] mrparen
        \<and> (Name mid = ''BeNil'' \<or> Name mid = ''HaveOccurred'' \<or> Name mid = ''Succeed''))"
    unfolding getKnownMatcher_def
    by (auto split: node.splits simp: matcher_defs)
next
  fix mid mrparen
  assume "aMatcher ass = CallExpr (Ident mid) [] mrparen
        \<and> (Name mid = ''BeNil'' \<or> Name mid = ''HaveOccurred'' \<or> Name mid = ''Succeed'')"
  then show "getKnownMatcher ass = (Some mid, Name mid)"
    unfolding getKnownMatcher_def by (auto simp: matcher_defs)
next
  assume u: "snd (getKnownMatcher ass) = UnknownMatcher"
  then show "fst (getKnownMatcher ass) = None"
    using getKnownMatcher_cases [of ass "fst (getKnownMatcher ass)" "snd (getKnownMatcher ass)"]
    by (cases "getKnownMatcher ass") auto
next
  fix pass
  assume u: "snd (getKnownMatcher ass) = UnknownMatcher"
  then show "checkNilnessAssertions ass pass = Inr (False, pass)"
    by (rule checkNilness_unknown)
qed

text \<open>The theorem at \<^verbatim>\<open>Expect(x).To(MyCustomMatcher())\<close> and at a call of \<open>BeNil\<close>.\<close>

theorem known_matcher_classification_witness:
  "snd (getKnownMatcher ass_custom) = UnknownMatcher
   \<and> fst (getKnownMatcher ass_custom) = None
   \<and> checkNilnessAssertions ass_custom pass_all_errors = Inr (False, pass_all_errors)
   \<and> checkNilnessAssertions ass_custom pass_no_errors = Inr (False, pass_no_errors)
   \<and> aMatcher ass_expect_should = CallExpr (Ident (tok 20 IsNil)) [] 26
   \<and> Name (tok 20 IsNil) = ''BeNil''
   \<and> getKnownMatcher ass_expect_should = (Some (tok 20 IsNil), ''BeNil'')"
proof -
  have u: "snd (getKnownMatcher ass_custom) = UnknownMatcher"
    by (simp add: getKnownMatcher_def ass_custom_def tok_def matcher_defs)
  have m: "aMatcher ass_expect_should = CallExpr (Ident (tok 20 IsNil)) [] 26"
    by (simp add: ass_expect_should_def)
  have k: "Name (tok 20 IsNil) = ''BeNil''"
    by (simp add: tok_def matcher_defs)
  from known_matcher_classification [of ass_custom] u
       known_matcher_classification [of ass_expect_should] m k
  show ?thesis by auto
qed

text \<open>
  Claim C4. The polarity \<open>matchesNil\<close> is true of \<open>BeNil\<close> and \<open>Succeed\<close> and false of
  \<open>HaveOccurred\<close>. On a recognised assertion the nilness rule returns; either it
  reports nothing and returns false (the matcher is unknown or already the expected
  one), or it appends one diagnostic with one fix, and then its result is true exactly
  when actual and expected matcher differ in polarity. When the result is true the fix
  has a second edit over the comparator identifier, whose text is the comparator of the
  wrapper's style with the negation flipped, and its message ends in
  \<open>and invert the assertion\<close>; when it is false the fix has the matcher edit only.
\<close>

theorem nilness_inversion:
  "matchesNil IsNil \<and> matchesNil Succeed \<and> \<not> matchesNil HaveOccurred
   \<and> (getAssertion n = Inr (Some ass) \<longrightarrow> getKnownMatcher ass = (mi, actual) \<longrightarrow>
        expected = (if isErrorExpr (aSubject ass) (TypesInfo pass)
                    then (if isCallExpr (aSubject ass) then Succeed else HaveOccurred)
                    else IsNil) \<longrightarrow>
        (\<exists>b pass'. checkNilnessAssertions ass pass = Inr (b, pass')
           \<and> (Reported pass' = Reported pass \<and> b = False
                \<and> (actual = UnknownMatcher \<or> actual = expected)
              \<or> (\<exists>d fix e1. Reported pass' = Reported pass @ [d] \<and> SuggestedFixes d = [fix]
                    \<and> actual \<noteq> UnknownMatcher \<and> actual \<noteq> expected
                    \<and> b = (matchesNil actual \<noteq> matchesNil expected)
                    \<and> (if b
                        then \<exists>so t. getStyle (Name (aOmega ass)) = Inr so
                               \<and> renderInStyle so (\<not> aNegated ass) = Inr t
                               \<and> getStyle t = Inr so
                               \<and> ((t = ShouldNot \<or> t = ToNot \<or> t = NotTo) = (\<not> aNegated ass))
                               \<and> TextEdits fix = [e1, \<lparr>ePos = ident_Pos (aShould ass),
                                                         eEnd = ident_End (aShould ass),
                                                         NewText = t\<rparr>]
                               \<and> fMessage fix = ''change matcher to '' @ expected
                                                 @ '' and invert the assertion''
                        else TextEdits fix = [e1]
                               \<and> fMessage fix = ''change matcher to '' @ expected)))))"
  (is "_ \<and> _ \<and> _ \<and> (_ \<longrightarrow> _ \<longrightarrow> _ \<longrightarrow> ?goal)")
proof (intro conjI impI)
  show "matchesNil IsNil" "matchesNil Succeed" "\<not> matchesNil HaveOccurred"
    by (simp_all add: matchesNil_def matcher_defs)
next
  assume a: "getAssertion n = Inr (Some ass)" and k: "getKnownMatcher ass = (mi, actual)"
    and x: "expected = (if isErrorExpr (aSubject ass) (TypesInfo pass)
                    then (if isCallExpr (aSubject ass) then Succeed else HaveOccurred)
                    else IsNil)"
  from checkNilness_cases [OF a k x] consider
    (silent) "checkNilnessAssertions ass pass = Inr (False, pass)"
             "actual = UnknownMatcher \<or> actual = expected"
  | (report) mid so t where
      "actual \<noteq> UnknownMatcher" "actual \<noteq> expected"
      "getStyle (Name (aOmega ass)) = Inr so"
      "renderInStyle so (\<not> aNegated ass) = Inr t"
      "checkNilnessAssertions ass pass =
               Inr (matchesNil actual \<noteq> matchesNil expected,
                    Report pass
                      \<lparr>dPos = node_Pos n, dEnd = node_End n,
                       Message = ''unidiomatic matcher: consider using '' @ expected
                                 @ '' instead of '' @ actual @ '' in this assertion'',
                       SuggestedFixes =
                         [\<lparr>fMessage = ''change matcher to '' @ expected
                                       @ (if matchesNil actual \<noteq> matchesNil expected
                                          then '' and invert the assertion'' else []),
                           TextEdits =
                             \<lparr>ePos = ident_Pos mid, eEnd = ident_End mid, NewText = expected\<rparr>
                             # (if matchesNil actual \<noteq> matchesNil expected
                                then [\<lparr>ePos = ident_Pos (aShould ass),
                                       eEnd = ident_End (aShould ass), NewText = t\<rparr>]
                                else [])\<rparr>]\<rparr>)"
    by blast
  then show ?goal
  proof cases
    case silent
    then show ?thesis by auto
  next
    case (report mid so t)
    note ne = report(1,2) and so = report(3) and t = report(4) and r = report(5)
    from getStyle_render [OF getStyle_range [OF so] t]
    have g: "getStyle t = Inr so" "(t = ShouldNot \<or> t = ToNot \<or> t = NotTo) = (\<not> aNegated ass)"
      by simp_all
    show ?thesis
      unfolding r using ne so t g by (auto simp: Report_def)
  qed
qed

text \<open>The theorem at \<^verbatim>\<open>Expect(err).Should(BeNil())\<close> with \<open>err\<close> an error.\<close>

theorem nilness_inversion_witness:
  "getAssertion src_expect_should = Inr (Some ass_expect_should)
   \<and> getKnownMatcher ass_expect_should = (Some (tok 20 IsNil), IsNil)
   \<and> HaveOccurred = (if isErrorExpr (aSubject ass_expect_should) (TypesInfo pass_all_errors)
                      then (if isCallExpr (aSubject ass_expect_should) then Succeed else HaveOccurred)
                      else IsNil)
   \<and>
        (\<exists>b pass'. checkNilnessAssertions ass_expect_should pass_all_errors = Inr (b, pass')
           \<and> (Reported pass' = Reported pass_all_errors \<and> b = False
                \<and> (IsNil = UnknownMatcher \<or> IsNil = HaveOccurred)
              \<or> (\<exists>d fix e1. Reported pass' = Reported pass_all_errors @ [d] \<and> SuggestedFixes d = [fix]
                    \<and> IsNil \<noteq> UnknownMatcher \<and> IsNil \<noteq> HaveOccurred
                    \<and> b = (matchesNil IsNil \<noteq> matchesNil HaveOccurred)
                    \<and> (if b
                        then \<exists>so t. getStyle (Name (aOmega ass_expect_should)) = Inr so
                               \<and> renderInStyle so (\<not> aNegated ass_expect_should) = Inr t
                               \<and> getStyle t = Inr so
                               \<and> ((t = ShouldNot \<or> t = ToNot \<or> t = NotTo) = (\<not> aNegated ass_expect_should))
                               \<and> TextEdits fix = [e1, \<lparr>ePos = ident_Pos (aShould ass_expect_should),
                                                         eEnd = ident_End (aShould ass_expect_should),
                                                         NewText = t\<rparr>]
                               \<and> fMessage fix = ''change matcher to '' @ HaveOccurred
                                                 @ '' and invert the assertion''
                        else TextEdits fix = [e1]
                               \<and> fMessage fix = ''change matcher to '' @ HaveOccurred))))"
proof -
  have h: "HaveOccurred = (if isErrorExpr (aSubject ass_expect_should) (TypesInfo pass_all_errors)
                      then (if isCallExpr (aSubject ass_expect_should) then Succeed else HaveOccurred)
                      else IsNil)"
    by (simp add: isErrorExpr_def pass_all_errors_def ass_expect_should_def)
  note r = nilness_inversion [THEN conjunct2, THEN conjunct2, THEN conjunct2, rule_format,
             OF getAssertion_expect_should getKnownMatcher_expect_should h]
  show ?thesis
    by (intro conjI) (rule getAssertion_expect_should getKnownMatcher_expect_should h r)+
qed

text \<open>
  Claim C10. Whenever a fix reported by the nilness rule has a second edit, that edit is
  the last one, the rule returned true, the edit spans the comparator identifier, and its
  text is the comparator of the wrapper's style for the flipped negation. The source
  with both edits of the fix applied is recognised again, with the same wrapper, the
  negation flipped and wrapper and comparator of one style, so the style rule reports
  nothing on it.
\<close>

theorem inversion_edit_wrapper_style:
  assumes "getAssertion n = Inr (Some ass)"
      and "checkNilnessAssertions ass pass = Inr (b, pass')"
      and "Reported pass' = Reported pass @ [d]"
      and "f \<in> set (SuggestedFixes d)"
      and "TextEdits f = e1 # e2 # others"
  shows "others = [] \<and> b
       \<and> ePos e2 = ident_Pos (aShould ass) \<and> eEnd e2 = ident_End (aShould ass)
       \<and> (\<exists>so. getStyle (Name (aOmega ass)) = Inr so
              \<and> renderInStyle so (\<not> aNegated ass) = Inr (NewText e2)
              \<and> getStyle (NewText e2) = Inr so)
       \<and> (\<exists>ass'. getAssertion (withComparator (NewText e2) (withMatcherName (NewText e1) n))
                     = Inr (Some ass')
              \<and> Name (aOmega ass') = Name (aOmega ass)
              \<and> Name (aShould ass') = NewText e2
              \<and> aNegated ass' = (\<not> aNegated ass)
              \<and> getStyle (Name (aOmega ass')) = getStyle (Name (aShould ass'))
              \<and> (\<forall>p fl. checkStyle ass' p fl = Inr p))"
  using assms(1)
proof (cases rule: checkNilness_outcomes [where pass = pass])
  case silent
  with assms(2,3) show ?thesis by simp
next
  case (plain d0 x)
  with assms(2-5) show ?thesis by (auto simp: Report_def)
next
  case (inverted d0 x so t)
  from inverted(1,2) assms(2-5) have
    ev: "b" "others = []" "e1 = x"
        "e2 = \<lparr>ePos = ident_Pos (aShould ass), eEnd = ident_End (aShould ass), NewText = t\<rparr>"
    by (auto simp: Report_def)
  from inverted(4) obtain mid mrparen where
    m: "aMatcher ass = CallExpr (Ident mid) [] mrparen" by blast
  note so = inverted(5) and t = inverted(6)
  from getStyle_render [OF getStyle_range [OF so] t] have
    g: "getStyle t = Inr so" and ng: "(t = ShouldNot \<or> t = ToNot \<or> t = NotTo) = (\<not> aNegated ass)"
    and kn: "t = Should \<or> t = To \<or> t = ShouldNot \<or> t = ToNot \<or> t = NotTo"
    by blast+
  let ?n1 = "withMatcherName (NewText e1) n"
  let ?a1 = "ass\<lparr>aCallExpr := ?n1,
                 aMatcher := CallExpr (Ident (mid\<lparr>Name := NewText e1\<rparr>)) [] mrparen\<rparr>"
  have w1: "getAssertion ?n1 = Inr (Some ?a1)"
    by (rule recognized_withMatcherName [OF assms(1) m])
  let ?a2 = "?a1\<lparr>aCallExpr := withComparator t ?n1, aShould := (aShould ?a1)\<lparr>Name := t\<rparr>,
                  aNegated := (t = ShouldNot \<or> t = ToNot \<or> t = NotTo)\<rparr>"
  have w2: "getAssertion (withComparator t ?n1) = Inr (Some ?a2)"
    by (rule recognized_withComparator [OF w1 kn])
  have s1: "getStyle (Name (aOmega ?a2)) = Inr so" using so by simp
  have s2: "getStyle (Name (aShould ?a2)) = Inr so" using g by simp
  have cs: "\<forall>p fl. checkStyle ?a2 p fl = Inr p"
    using checkStyle_same_style [OF s1 s2] by blast
  have "\<exists>ass'. getAssertion (withComparator t ?n1) = Inr (Some ass')
              \<and> Name (aOmega ass') = Name (aOmega ass)
              \<and> Name (aShould ass') = t
              \<and> aNegated ass' = (\<not> aNegated ass)
              \<and> getStyle (Name (aOmega ass')) = getStyle (Name (aShould ass'))
              \<and> (\<forall>p fl. checkStyle ass' p fl = Inr p)"
    using w2 ng s1 s2 cs by (intro exI [of _ ?a2]) simp
  with ev g so t show ?thesis by simp
qed

text \<open>
  The theorem at \<^verbatim>\<open>Expect(err).Should(BeNil())\<close>, which mixes the two styles: the fix
  renames the matcher to \<open>HaveOccurred\<close> and the comparator to \<open>NotTo\<close>.
\<close>

theorem inversion_edit_wrapper_style_witness:
  "(getAssertion src_expect_should = Inr (Some ass_expect_should)
    \<and> checkNilnessAssertions ass_expect_should pass_all_errors
        = Inr (True, pass_all_errors\<lparr>Reported := [diag_nilness]\<rparr>)
    \<and> Reported (pass_all_errors\<lparr>Reported := [diag_nilness]\<rparr>)
        = Reported pass_all_errors @ [diag_nilness]
    \<and> fix_nilness \<in> set (SuggestedFixes diag_nilness)
    \<and> TextEdits fix_nilness = edit_matcher # edit_invert # [])
   \<and> (([] :: TextEdit list) = [] \<and> True
       \<and> ePos edit_invert = ident_Pos (aShould ass_expect_should) \<and> eEnd edit_invert = ident_End (aShould ass_expect_should)
       \<and> (\<exists>so. getStyle (Name (aOmega ass_expect_should)) = Inr so
              \<and> renderInStyle so (\<not> aNegated ass_expect_should) = Inr (NewText edit_invert)
              \<and> getStyle (NewText edit_invert) = Inr so)
       \<and> (\<exists>ass'. getAssertion (withComparator (NewText edit_invert) (withMatcherName (NewText edit_matcher) src_expect_should))
                     = Inr (Some ass')
              \<and> Name (aOmega ass') = Name (aOmega ass_expect_should)
              \<and> Name (aShould ass') = NewText edit_invert
              \<and> aNegated ass' = (\<not> aNegated ass_expect_should)
              \<and> getStyle (Name (aOmega ass')) = getStyle (Name (aShould ass'))
              \<and> (\<forall>p fl. checkStyle ass' p fl = Inr p)))"
proof -
  have h3: "Reported (pass_all_errors\<lparr>Reported := [diag_nilness]\<rparr>)
            = Reported pass_all_errors @ [diag_nilness]"
    by (simp add: pass_all_errors_def)
  have h4: "fix_nilness \<in> set (SuggestedFixes diag_nilness)"
    by (simp add: diag_nilness_def)
  have h5: "TextEdits fix_nilness = edit_matcher # edit_invert # []"
    by (simp add: fix_nilness_def)
  note r = inversion_edit_wrapper_style
             [OF getAssertion_expect_should checkNilness_expect_should h3 h4 h5]
  show ?thesis
    by (intro conjI [OF _ r] conjI getAssertion_expect_should checkNilness_expect_should
          h3 h4 h5)
qed

subsection \<open>The style rule\<close>

text \<open>
  Claim C5. On a recognised node the callback runs the nilness rule on the incoming
  pass, then the style rule on the pass the nilness rule returned, with the flag
  \<open>emitFixes\<close> the negation of the nilness result, and returns true. The nilness
  result is true exactly when the nilness rule reported a fix with a second edit over the
  comparator identifier. The style rule leaves the pass alone when wrapper and comparator
  are of one style, and appends one diagnostic otherwise, for either value of the flag;
  that diagnostic has no fix when the nilness result is true, and otherwise one fix with
  one edit over the comparator identifier whose text is the comparator of the wrapper's
  style with the negation kept.
\<close>

theorem nilness_then_style:
  assumes "getAssertion n = Inr (Some ass)"
  shows "\<exists>b pass1 pass2 so ss.
           checkNilnessAssertions ass pass = Inr (b, pass1)
         \<and> checkStyle ass pass1 (\<not> b) = Inr pass2
         \<and> visit n pass = Inr (True, pass2)
         \<and> getStyle (Name (aOmega ass)) = Inr so
         \<and> getStyle (Name (aShould ass)) = Inr ss
         \<and> (\<exists>ds. Reported pass1 = Reported pass @ ds \<and> length ds \<le> 1
               \<and> b = (\<exists>d f e1 e2. ds = [d] \<and> SuggestedFixes d = [f]
                          \<and> TextEdits f = [e1, e2]
                          \<and> ePos e2 = ident_Pos (aShould ass)
                          \<and> eEnd e2 = ident_End (aShould ass)))
         \<and> (if so = ss then pass2 = pass1
             else \<exists>d t. Reported pass2 = Reported pass1 @ [d]
                    \<and> renderInStyle so (aNegated ass) = Inr t
                    \<and> SuggestedFixes d =
                        (if b then []
                         else [\<lparr>fMessage = ''change '' @ Name (aShould ass) @ '' to '' @ t,
                                 TextEdits = [\<lparr>ePos = ident_Pos (aShould ass),
                                               eEnd = ident_End (aShould ass),
                                               NewText = t\<rparr>]\<rparr>]))
         \<and> (\<forall>p flag. \<exists>p'. checkStyle ass p flag = Inr p'
                \<and> (if so = ss then p' = p else \<exists>d. Reported p' = Reported p @ [d]))"
proof -
  from recognized_styles [OF assms] obtain so ss where
    so: "getStyle (Name (aOmega ass)) = Inr so" and ss: "getStyle (Name (aShould ass)) = Inr ss"
    and k: "so = ShouldStyle \<or> so = ExpectStyle"
    by blast
  from renderInStyle_known [OF k] obtain t where
    t: "renderInStyle so (aNegated ass) = Inr t" by blast
  note cs = checkStyle_eval [OF so ss t]
  from assms show ?thesis
  proof (cases rule: checkNilness_outcomes [where pass = pass])
    case silent
    show ?thesis
      by (auto simp: visit_def assms silent cs so ss t Report_def)
  next
    case (plain d e1)
    show ?thesis
      using plain(2)
      by (auto simp: visit_def assms plain(1) cs so ss t Report_def)
  next
    case (inverted d e1 so' t')
    show ?thesis
      using inverted(2)
      by (auto simp: visit_def assms inverted(1) cs so ss t Report_def)
  qed
qed

text \<open>The theorem at \<^verbatim>\<open>Expect(err).Should(BeNil())\<close> with \<open>err\<close> an error.\<close>

theorem nilness_then_style_witness:
  "getAssertion src_expect_should = Inr (Some ass_expect_should)
   \<and> (\<exists>b pass1 pass2 so ss.
           checkNilnessAssertions ass_expect_should pass_all_errors = Inr (b, pass1)
         \<and> checkStyle ass_expect_should pass1 (\<not> b) = Inr pass2
         \<and> visit src_expect_should pass_all_errors = Inr (True, pass2)
         \<and> getStyle (Name (aOmega ass_expect_should)) = Inr so
         \<and> getStyle (Name (aShould ass_expect_should)) = Inr ss
         \<and> (\<exists>ds. Reported pass1 = Reported pass_all_errors @ ds \<and> length ds \<le> 1
               \<and> b = (\<exists>d f e1 e2. ds = [d] \<and> SuggestedFixes d = [f]
                          \<and> TextEdits f = [e1, e2]
                          \<and> ePos e2 = ident_Pos (aShould ass_expect_should)
                          \<and> eEnd e2 = ident_End (aShould ass_expect_should)))
         \<and> (if so = ss then pass2 = pass1
             else \<exists>d t. Reported pass2 = Reported pass1 @ [d]
                    \<and> renderInStyle so (aNegated ass_expect_should) = Inr t
                    \<and> SuggestedFixes d =
                        (if b then []
                         else [\<lparr>fMessage = ''change '' @ Name (aShould ass_expect_should) @ '' to '' @ t,
                                 TextEdits = [\<lparr>ePos = ident_Pos (aShould ass_expect_should),
                                               eEnd = ident_End (aShould ass_expect_should),
                                               NewText = t\<rparr>]\<rparr>]))
         \<and> (\<forall>p flag. \<exists>p'. checkStyle ass_expect_should p flag = Inr p'
                \<and> (if so = ss then p' = p else \<exists>d. Reported p' = Reported p @ [d])))"
  by (rule conjI [OF getAssertion_expect_should
        nilness_then_style [OF getAssertion_expect_should]])

text \<open>
  Claim C6 fixes the text of the style diagnostic:
  \<open>inconsistent assertion style (W + C)\<close>. The \<open>checkStyle\<close> of \<open>main.go\<close> builds
  its message from a format string that spells the first word \<open>incosistent\<close>, so on
  \<^verbatim>\<open>Expect(err).Should(BeNil())\<close> the reported message is not the documented one. (The
  later \<open>checkStyle\<close> has the documented text: lemma \<open>checkStyle_message\<close>.)
\<close>

theorem main_checkStyle_message:
  "main_visit src_expect_should pass_no_errors =
     Inr (True, pass_no_errors\<lparr>Reported :=
       [\<lparr>dPos = 1, dEnd = 28,
         Message = ''incosistent assertion style (Expect + Should)'',
         SuggestedFixes = [\<lparr>fMessage = [],
                            TextEdits = [\<lparr>ePos = 13, eEnd = 19, NewText = ''To''\<rparr>]\<rparr>]\<rparr>]\<rparr>)"
  by (simp add: main_visit_def main_checkStyle_def getAssertion_def mkAssertion_def index0_def
        src_expect_should_def tok_def name_defs getStyle_def renderInStyle_def style_defs
        Report_def pass_no_errors_def ident_Pos_def ident_End_def)

text \<open>
  Claim C7. For either style and either negation flag the renderer returns a token whose
  style is the one given and which is one of the three negated comparators exactly when
  the flag is set. For every edit of a fix the style rule reports on a recognised
  assertion: the edit spans the comparator identifier, its text has the wrapper's style
  and encodes the assertion's negation, and the source with the comparator replaced by
  that text is recognised again, with the same wrapper and negation and with wrapper and
  comparator of one style, so the style rule reports nothing on it.
\<close>

theorem style_fix_roundtrip:
  "(\<forall>s neg. s = ShouldStyle \<or> s = ExpectStyle \<longrightarrow>
       (\<exists>t. renderInStyle s neg = Inr t \<and> getStyle t = Inr s
            \<and> ((t = ShouldNot \<or> t = ToNot \<or> t = NotTo) = neg)))
   \<and> (getAssertion n = Inr (Some ass) \<longrightarrow> checkStyle ass pass flag = Inr pass' \<longrightarrow>
        Reported pass' = Reported pass @ [d] \<longrightarrow> f \<in> set (SuggestedFixes d) \<longrightarrow>
        e \<in> set (TextEdits f) \<longrightarrow>
          ePos e = ident_Pos (aShould ass) \<and> eEnd e = ident_End (aShould ass)
        \<and> getStyle (NewText e) = getStyle (Name (aOmega ass))
        \<and> ((NewText e = ShouldNot \<or> NewText e = ToNot \<or> NewText e = NotTo) = aNegated ass)
        \<and> (\<exists>ass'. getAssertion (withComparator (NewText e) n) = Inr (Some ass')
              \<and> Name (aOmega ass') = Name (aOmega ass)
              \<and> Name (aShould ass') = NewText e
              \<and> aNegated ass' = aNegated ass
              \<and> getStyle (Name (aOmega ass')) = getStyle (Name (aShould ass'))
              \<and> (\<forall>p fl. checkStyle ass' p fl = Inr p)))"
  (is "?A \<and> (_ \<longrightarrow> _ \<longrightarrow> _ \<longrightarrow> _ \<longrightarrow> _ \<longrightarrow> ?B)")
proof -
  have A: ?A
  proof (intro allI impI)
    fix s :: Style and neg
    assume k: "s = ShouldStyle \<or> s = ExpectStyle"
    from renderInStyle_known [OF k] obtain t where t: "renderInStyle s neg = Inr t" by blast
    from getStyle_render [OF k t] t
    show "\<exists>t. renderInStyle s neg = Inr t \<and> getStyle t = Inr s
            \<and> ((t = ShouldNot \<or> t = ToNot \<or> t = NotTo) = neg)"
      by blast
  qed
  have B: ?B
    if a: "getAssertion n = Inr (Some ass)"
     and c: "checkStyle ass pass flag = Inr pass'"
     and r: "Reported pass' = Reported pass @ [d]"
     and f: "f \<in> set (SuggestedFixes d)" and e: "e \<in> set (TextEdits f)"
  proof -
  from recognized_styles [OF a] obtain so ss where
    so: "getStyle (Name (aOmega ass)) = Inr so" and ss: "getStyle (Name (aShould ass)) = Inr ss"
    and k: "so = ShouldStyle \<or> so = ExpectStyle"
    by blast
  from renderInStyle_known [OF k] obtain t where
    t: "renderInStyle so (aNegated ass) = Inr t" by blast
  from c r f e have ev: "ePos e = ident_Pos (aShould ass)" "eEnd e = ident_End (aShould ass)"
      "NewText e = t"
    unfolding checkStyle_eval [OF so ss t]
    by (auto simp: Report_def split: if_splits)
  from getStyle_render [OF k t] have
    g: "getStyle t = Inr so" and ng: "(t = ShouldNot \<or> t = ToNot \<or> t = NotTo) = aNegated ass"
    and kn: "t = Should \<or> t = To \<or> t = ShouldNot \<or> t = ToNot \<or> t = NotTo"
    by blast+
  let ?a = "ass\<lparr>aCallExpr := withComparator t n, aShould := (aShould ass)\<lparr>Name := t\<rparr>,
                aNegated := (t = ShouldNot \<or> t = ToNot \<or> t = NotTo)\<rparr>"
  have w: "getAssertion (withComparator t n) = Inr (Some ?a)"
    by (rule recognized_withComparator [OF a kn])
  have s1: "getStyle (Name (aOmega ?a)) = Inr so" using so by simp
  have s2: "getStyle (Name (aShould ?a)) = Inr so" using g by simp
  have cs: "\<forall>p fl. checkStyle ?a p fl = Inr p"
    using checkStyle_same_style [OF s1 s2] by blast
  have "\<exists>ass'. getAssertion (withComparator t n) = Inr (Some ass')
              \<and> Name (aOmega ass') = Name (aOmega ass)
              \<and> Name (aShould ass') = t
              \<and> aNegated ass' = aNegated ass
              \<and> getStyle (Name (aOmega ass')) = getStyle (Name (aShould ass'))
              \<and> (\<forall>p fl. checkStyle ass' p fl = Inr p)"
    using w ng s1 s2 cs by (intro exI [of _ ?a]) simp
  with ev g ng so show ?B by simp
  qed
  from A B show ?thesis by blast
qed

text \<open>The theorem at the source that puts \<open>To\<close> after the Omega wrapper; the fix is \<open>Should\<close>.\<close>

theorem style_fix_roundtrip_witness:
  "(getAssertion src_omega_to = Inr (Some ass_omega_to)
    \<and> checkStyle ass_omega_to pass_no_errors True
        = Inr (pass_no_errors\<lparr>Reported := [diag_style]\<rparr>)
    \<and> Reported (pass_no_errors\<lparr>Reported := [diag_style]\<rparr>)
        = Reported pass_no_errors @ [diag_style]
    \<and> fix_style \<in> set (SuggestedFixes diag_style)
    \<and> edit_style \<in> set (TextEdits fix_style))
   \<and> (ePos edit_style = ident_Pos (aShould ass_omega_to) \<and> eEnd edit_style = ident_End (aShould ass_omega_to)
        \<and> getStyle (NewText edit_style) = getStyle (Name (aOmega ass_omega_to))
        \<and> ((NewText edit_style = ShouldNot \<or> NewText edit_style = ToNot \<or> NewText edit_style = NotTo) = aNegated ass_omega_to)
        \<and> (\<exists>ass'. getAssertion (withComparator (NewText edit_style) src_omega_to) = Inr (Some ass')
              \<and> Name (aOmega ass') = Name (aOmega ass_omega_to)
              \<and> Name (aShould ass') = NewText edit_style
              \<and> aNegated ass' = aNegated ass_omega_to
              \<and> getStyle (Name (aOmega ass')) = getStyle (Name (aShould ass'))
              \<and> (\<forall>p fl. checkStyle ass' p fl = Inr p)))"
proof -
  have h3: "Reported (pass_no_errors\<lparr>Reported := [diag_style]\<rparr>)
            = Reported pass_no_errors @ [diag_style]"
    by (simp add: pass_no_errors_def)
  have h4: "fix_style \<in> set (SuggestedFixes diag_style)"
    by (simp add: diag_style_def)
  have h5: "edit_style \<in> set (TextEdits fix_style)"
    by (simp add: fix_style_def)
  note r = style_fix_roundtrip [THEN conjunct2, rule_format,
             OF getAssertion_omega_to checkStyle_omega_to h3 h4 h5]
  show ?thesis
    by (intro conjI [OF _ r] conjI getAssertion_omega_to checkStyle_omega_to h3 h4 h5)
qed

subsection \<open>Classification never panics\<close>

text \<open>
  Claim C8. Each of the seven known names has exactly one of the two styles. For every
  assertion the matcher returns, classifying the wrapper and the comparator name
  returns a style, rendering the wrapper's style returns a token for either negation
  flag, and both rules and the callback return. Whatever the node, the only panic of the
  callback (of either state of the checker) is the index panic of the matcher, never the
  panic of the classifier or of the renderer.
\<close>

theorem classification_never_panics:
  "(\<forall>s. s = Omega \<or> s = Expect \<or> s = Should \<or> s = ShouldNot \<or> s = To \<or> s = ToNot \<or> s = NotTo
        \<longrightarrow> getStyle s = Inr ShouldStyle \<or> getStyle s = Inr ExpectStyle)
   \<and> ShouldStyle \<noteq> ExpectStyle
   \<and> (getAssertion n = Inr (Some ass) \<longrightarrow>
        (\<exists>so ss. getStyle (Name (aOmega ass)) = Inr so \<and> getStyle (Name (aShould ass)) = Inr ss
            \<and> (\<forall>neg. \<exists>t. renderInStyle so neg = Inr t))
        \<and> (\<forall>pass. \<exists>b pass'. checkNilnessAssertions ass pass = Inr (b, pass'))
        \<and> (\<forall>pass flag. \<exists>pass'. checkStyle ass pass flag = Inr pass')
        \<and> (\<forall>pass. \<exists>pass'. visit n pass = Inr (True, pass'))
        \<and> (\<forall>pass. \<exists>pass'. main_checkStyle ass pass = Inr pass'))
   \<and> (\<forall>pass e. visit n pass = Inl e \<longrightarrow> e = IndexOutOfRange)
   \<and> (\<forall>pass e. main_visit n pass = Inl e \<longrightarrow> e = IndexOutOfRange)"
  (is "?A \<and> ?B \<and> (_ \<longrightarrow> ?C) \<and> ?D \<and> ?E")
proof -
  have A: ?A using getStyle_known by blast
  have B: ?B by (simp add: style_defs)
  have C: ?C if a: "getAssertion n = Inr (Some ass)"
  proof -
    from recognized_styles [OF a] obtain so ss where
      s: "getStyle (Name (aOmega ass)) = Inr so" "getStyle (Name (aShould ass)) = Inr ss"
         "so = ShouldStyle \<or> so = ExpectStyle"
      by blast
    have "\<forall>neg. \<exists>t. renderInStyle so neg = Inr t"
      using renderInStyle_known [OF s(3)] by blast
    with s have 1: "\<exists>so ss. getStyle (Name (aOmega ass)) = Inr so
            \<and> getStyle (Name (aShould ass)) = Inr ss
            \<and> (\<forall>neg. \<exists>t. renderInStyle so neg = Inr t)"
      by blast
    show ?C
      using 1 checkNilness_returns [OF a] checkStyle_returns [OF a] visit_returns [OF a]
        main_checkStyle_returns [OF a]
      by blast
  qed
  have D: ?D using visit_Inl by blast
  have E: ?E using main_visit_Inl by blast
  from A B C D E show ?thesis by blast
qed

text \<open>
  The theorem at \<^verbatim>\<open>Expect(x).To(MyCustomMatcher())\<close>, at the name \<open>NotTo\<close>, and at
  the source whose callback does panic.
\<close>

theorem classification_never_panics_witness:
  "(getAssertion src_custom = Inr (Some ass_custom)
    \<and> visit src_no_args pass_no_errors = Inl IndexOutOfRange
    \<and> main_visit src_no_args pass_no_errors = Inl IndexOutOfRange
    \<and> (getStyle NotTo = Inr ShouldStyle \<or> getStyle NotTo = Inr ExpectStyle))
   \<and> ((\<exists>so ss. getStyle (Name (aOmega ass_custom)) = Inr so \<and> getStyle (Name (aShould ass_custom)) = Inr ss
            \<and> (\<forall>neg. \<exists>t. renderInStyle so neg = Inr t))
        \<and> (\<forall>pass. \<exists>b pass'. checkNilnessAssertions ass_custom pass = Inr (b, pass'))
        \<and> (\<forall>pass flag. \<exists>pass'. checkStyle ass_custom pass flag = Inr pass')
        \<and> (\<forall>pass. \<exists>pass'. visit src_custom pass = Inr (True, pass'))
        \<and> (\<forall>pass. \<exists>pass'. main_checkStyle ass_custom pass = Inr pass'))"
proof -
  note t = classification_never_panics [of src_custom ass_custom]
  note c = t [THEN conjunct2, THEN conjunct2, THEN conjunct1, rule_format,
             OF getAssertion_custom]
  have v: "visit src_no_args pass_no_errors = Inl IndexOutOfRange"
    by (simp add: visit_def getAssertion_def mkAssertion_def index0_def src_no_args_def
          tok_def name_defs)
  have m: "main_visit src_no_args pass_no_errors = Inl IndexOutOfRange"
    by (simp add: main_visit_def getAssertion_def mkAssertion_def index0_def src_no_args_def
          tok_def name_defs)
  have k: "NotTo = Omega \<or> NotTo = Expect \<or> NotTo = Should \<or> NotTo = ShouldNot
           \<or> NotTo = To \<or> NotTo = ToNot \<or> NotTo = NotTo"
    by simp
  note a = t [THEN conjunct1, rule_format, OF k]
  show ?thesis
    by (rule conjI [OF conjI [OF getAssertion_custom conjI [OF v conjI [OF m a]]] c])
qed

end
